theory Spec2Isabelle
  imports Main "HOL-Library.Word"
begin

section \<open>Strings and the two regular expressions of main.js\<close>

text \<open>
  A JavaScript string is a sequence of UTF-16 code units. Neither regular expression of
  main.js carries the \<open>u\<close> flag, so both match code unit by code unit.
\<close>

type_synonym jsstring = "16 word list"

text \<open>A string literal of the source whose characters are all ASCII.\<close>

definition ascii :: "string \<Rightarrow> jsstring" where
  "ascii s = map of_char s"

text \<open>
  The line terminators of ECMAScript (LF, CR, LS, PS): with the \<open>m\<close> flag, \<open>^\<close> matches
  at the start of the input and right after one of them.
\<close>

definition isLineTerminator :: "16 word \<Rightarrow> bool" where
  "isLineTerminator c = (c \<in> {0x000A, 0x000D, 0x2028, 0x2029})"

text \<open>
  The class \<open>\s\<close>: TAB, VT, FF, SP, NBSP, ZWNBSP, the space separators of Unicode
  and the line terminators.
\<close>

definition isWhiteSpace :: "16 word \<Rightarrow> bool" where
  "isWhiteSpace c =
     (c \<in> {0x0009, 0x000B, 0x000C, 0x0020, 0x00A0, 0x1680, 0x202F, 0x205F, 0x3000, 0xFEFF}
      \<or> (0x2000 \<le> c \<and> c \<le> 0x200A)
      \<or> isLineTerminator c)"

text \<open>The heading marker \<open>#\<close> and the space of the replacement text.\<close>

definition hash :: "16 word" where
  "hash = 0x23"

definition space :: "16 word" where
  "space = 0x20"

text \<open>
  \<open>String.prototype.includes\<close>: the pattern occurs at some position of the string.
\<close>

fun stringIncludes :: "jsstring \<Rightarrow> jsstring \<Rightarrow> bool" where
  "stringIncludes [] pat = (pat = [])"
| "stringIncludes (c # cs) pat = (take (length pat) (c # cs) = pat \<or> stringIncludes cs pat)"

text \<open>
  One attempt of \<open>(#{1,6})\s+\<close> at the front of \<open>s\<close> (the caller has checked \<open>^\<close>).
  The group is greedy: it takes the hashes at the front, six at most. With more than six
  hashes the code unit after the group is a hash, and so it is after every shorter group
  the matcher backtracks to: no match. Otherwise the code unit after all the hashes must
  be white space, and \<open>\s+\<close> then takes the whole run of white space. The result is the
  group (its length is \<open>hashes.length\<close>), the white space matched and the text after the
  match.
\<close>

definition matchHeading :: "jsstring \<Rightarrow> (nat \<times> jsstring \<times> jsstring) option" where
  "matchHeading s =
     (let n = length (takeWhile (\<lambda>c. c = hash) s); r = drop n s in
      if 1 \<le> n \<and> n \<le> 6 \<and> r \<noteq> [] \<and> isWhiteSpace (hd r)
      then Some (n, takeWhile isWhiteSpace r, dropWhile isWhiteSpace r)
      else None)"

lemma matchHeading_shorter:
  assumes "matchHeading s = Some (h, ws, rest)"
  shows "length rest < length s"
proof -
  let ?n = "length (takeWhile (\<lambda>c. c = hash) s)"
  from assms have n: "1 \<le> ?n" and rest: "rest = dropWhile isWhiteSpace (drop ?n s)"
    by (auto simp: matchHeading_def Let_def split: if_splits)
  have "length rest \<le> length (drop ?n s)"
    unfolding rest by (rule length_dropWhile_le)
  moreover have "?n \<le> length s"
    by (rule length_takeWhile_le)
  ultimately show ?thesis
    using n by simp
qed

text \<open>
  \<open>content.replace(/^(#{1,6})\s+/gm, (match, hashes) => "#".repeat(Math.min(hashes.length
  + parentHeaderLevel, 6)) + " ")\<close>, scanning from left to right. \<open>bol\<close> says whether \<open>^\<close>
  holds at the current position: at the start of the input, or after a line terminator.
  A match is replaced by the new hashes and one space, and the scan goes on after the
  match; elsewhere the code unit is copied.
\<close>

function replaceFrom :: "nat \<Rightarrow> bool \<Rightarrow> jsstring \<Rightarrow> jsstring" where
  "replaceFrom L bol [] = []"
| "replaceFrom L bol (c # cs) =
     (case (if bol then matchHeading (c # cs) else None) of
        Some (h, ws, rest) \<Rightarrow>
          replicate (min (h + L) 6) hash @ [space] @ replaceFrom L (isLineTerminator (last ws)) rest
      | None \<Rightarrow> c # replaceFrom L (isLineTerminator c) cs)"
  by pat_completeness auto
termination
proof (relation "measure (\<lambda>(L, bol, s). length s)")
  show "wf (measure (\<lambda>(L, bol, s). length s))"
    by simp
next
  fix L :: nat and bol c cs x2 h y ws rest
  assume "(if bol then matchHeading (c # cs) else None) = Some x2"
    and "(h, y) = x2" and "(ws, rest) = y"
  then have "matchHeading (c # cs) = Some (h, ws, rest)"
    by (auto split: if_splits)
  then show "((L, isLineTerminator (last ws), rest), L, bol, c # cs)
      \<in> measure (\<lambda>(L, bol, s). length s)"
    using matchHeading_shorter by fastforce
next
  fix L :: nat and bol c cs
  show "((L, isLineTerminator c, cs), L, bol, c # cs) \<in> measure (\<lambda>(L, bol, s). length s)"
    by simp
qed

section \<open>The rendered tree\<close>

text \<open>
  What main.js reads of a DOM element: \<open>tagName\<close>, \<open>getAttribute("src")\<close> (null when the
  attribute is missing), \<open>outerHTML\<close> and \<open>parentElement\<close> (null at the root).
\<close>

datatype element =
  Element (tagName: jsstring) (srcAttr: "jsstring option") (outerHTML: jsstring)
    (parentElement: "element option")



text \<open>
  \<open>/^H[1-6]$/.test(tag)\<close>: without the \<open>m\<close> flag \<open>^\<close> and \<open>$\<close> are the two ends of the
  input, so the tag is an \<open>H\<close> and one digit from 1 to 6.
\<close>

definition isHeadingTag :: "jsstring \<Rightarrow> bool" where
  "isHeadingTag t = (case t of [a, b] \<Rightarrow> a = 0x48 \<and> 0x31 \<le> b \<and> b \<le> 0x36 | _ \<Rightarrow> False)"

text \<open>\<open>parseInt(tag.charAt(1))\<close> on a tag whose second code unit is a digit.\<close>

definition tagLevel :: "jsstring \<Rightarrow> nat" where
  "tagLevel t = unat (t ! 1) - 48"

text \<open>
  \<open>getParentHeaderLevel\<close>: the loop starts at the element it is given
  (\<open>let parent = transclusion\<close>) and climbs \<open>parentElement\<close> until it is null.
  \<open>None\<close> is the \<open>null\<close> it returns.
\<close>

fun getParentHeaderLevel :: "element \<Rightarrow> nat option" where
  "getParentHeaderLevel (Element tag s html par) =
     (if tag \<noteq> [] \<and> isHeadingTag tag then Some (tagLevel tag)
      else (case par of None \<Rightarrow> None | Some p \<Rightarrow> getParentHeaderLevel p))"

text \<open>\<open>shiftHeadings(content, transclusion)\<close>.\<close>

definition shiftHeadings :: "jsstring \<Rightarrow> element \<Rightarrow> jsstring" where
  "shiftHeadings content transclusion =
     (case getParentHeaderLevel transclusion of
        None \<Rightarrow> content
      | Some parentHeaderLevel \<Rightarrow> replaceFrom parentHeaderLevel True content)"

section \<open>Settings\<close>

text \<open>
  The settings object, by property name. The two toggles of the settings tab write
  booleans, and so do the defaults; a property the object lacks reads as \<open>undefined\<close>.
\<close>

type_synonym settings = "string \<rightharpoonup> bool"

text \<open>The object literal \<open>{ renderAllTransclusions: false, shiftHeadings: false }\<close>.\<close>

definition defaultSettings :: settings where
  "defaultSettings = [''renderAllTransclusions'' \<mapsto> False, ''shiftHeadings'' \<mapsto> False]"

text \<open>
  \<open>loadSettings\<close>: \<open>Object.assign(defaults, await this.loadData())\<close>. The argument is what
  \<open>loadData\<close> resolved to: \<open>None\<close> is the \<open>null\<close> of a plugin with no saved data, which
  \<open>Object.assign\<close> skips; the properties of a saved object are copied over the defaults.
\<close>

definition loadSettings :: "settings option \<Rightarrow> settings" where
  "loadSettings data = (case data of None \<Rightarrow> defaultSettings | Some d \<Rightarrow> defaultSettings ++ d)"

section \<open>The markdown post-processor\<close>

text \<open>
  What \<open>vault.getAbstractFileByPath\<close> finds at a path: a file (an instance of the class
  the \<open>instanceof\<close> test names), something else (a folder), or nothing (\<open>None\<close>).
\<close>

datatype abstractFile = TFile | TFolder

text \<open>
  The host application. \<open>vaultRead\<close> and \<open>render\<close> are awaited and may reject: \<open>Inl\<close> is the
  error thrown at the \<open>await\<close>. \<open>MarkdownRenderer.render\<close> runs the post-processors on what
  it renders, this one included, on the same \<open>this.embeddedFiles\<close>: it is given the set
  and returns it as the nested passes left it, with the rendered content of the
  container.
\<close>

record ('e, 'f) host =
  getAbstractFileByPath :: "jsstring \<Rightarrow> abstractFile option"
  vaultRead :: "jsstring \<Rightarrow> 'e + jsstring"
  render :: "jsstring \<Rightarrow> jsstring \<Rightarrow> jsstring set \<Rightarrow> ('e + 'f) \<times> jsstring set"

text \<open>The calls of one pass that leave the plugin, in order.\<close>

datatype call = ConsoleWarn jsstring | VaultRead jsstring | Render jsstring jsstring

record pluginState =
  embeddedFiles :: "jsstring set"
  trace :: "call list"

text \<open>
  What stands in the tree at the place of a transclusion: the element itself, the
  \<open>createDiv({ text, cls })\<close> of the warning, or the container (its class, and the content
  rendered into it).
\<close>

datatype 'f node = Embed element | TextDiv jsstring jsstring | RenderedDiv jsstring 'f

text \<open>The two template literals of the loop warning; the sign is U+26A0 U+FE0F.\<close>

definition consoleText :: "jsstring \<Rightarrow> jsstring" where
  "consoleText filePath =
     [0x26A0, 0xFE0F] @ ascii '' Infinite embed loop detected! Skipping: '' @ filePath"

definition warningText :: "jsstring \<Rightarrow> jsstring" where
  "warningText filePath = [0x26A0, 0xFE0F] @ ascii '' Infinite loop detected: '' @ filePath"

text \<open>\<open>transclusion.outerHTML.includes("!![[")\<close>.\<close>

definition isExplicit :: "element \<Rightarrow> bool" where
  "isExplicit transclusion = stringIncludes (outerHTML transclusion) (ascii ''!![['')"

text \<open>
  The body of the \<open>for\<close> loop, for one transclusion: the error thrown, if any, what now
  stands at the transclusion's place, and the state. An empty \<open>src\<close> is falsy, as null is.
  A rejected \<open>await\<close> leaves the function at once: the statements after it do not run.
\<close>

definition processTransclusion ::
  "settings \<Rightarrow> ('e, 'f) host \<Rightarrow> pluginState \<Rightarrow> element \<Rightarrow> 'e option \<times> 'f node \<times> pluginState" where
  "processTransclusion settings h st transclusion =
     (if settings ''renderAllTransclusions'' = Some True \<or> isExplicit transclusion then
        (case srcAttr transclusion of
           None \<Rightarrow> (None, Embed transclusion, st)
         | Some filePath \<Rightarrow>
             if filePath = [] then (None, Embed transclusion, st)
             else if getAbstractFileByPath h filePath = Some TFile then
               if filePath \<in> embeddedFiles st then
                 (None, TextDiv (warningText filePath) (ascii ''embed-warning''),
                  st\<lparr>trace := trace st @ [ConsoleWarn (consoleText filePath)]\<rparr>)
               else
                 (let st1 = st\<lparr>embeddedFiles := insert filePath (embeddedFiles st),
                                trace := trace st @ [VaultRead filePath]\<rparr>
                  in case vaultRead h filePath of
                       Inl e \<Rightarrow> (Some e, Embed transclusion, st1)
                     | Inr content \<Rightarrow>
                         (let fileContent =
                                (if settings ''shiftHeadings'' = Some True
                                 then shiftHeadings content transclusion else content);
                              (r, files) = render h fileContent filePath (embeddedFiles st1);
                              st2 = \<lparr>embeddedFiles = files,
                                     trace = trace st1 @ [Render fileContent filePath]\<rparr>
                          in case r of
                               Inl e \<Rightarrow> (Some e, Embed transclusion, st2)
                             | Inr fragment \<Rightarrow>
                                 (None, RenderedDiv (ascii ''native-transclusion'') fragment,
                                  st2\<lparr>embeddedFiles := files - {filePath}\<rparr>)))
             else (None, Embed transclusion, st))
      else (None, Embed transclusion, st))"

text \<open>
  The post-processor on the elements \<open>el.querySelectorAll("span.internal-embed")\<close> found,
  in document order. An error ends the pass: the transclusions after it stay as they
  are. The result is the error, the nodes at the places of the transclusions and the
  state.
\<close>

fun postProcess ::
  "settings \<Rightarrow> ('e, 'f) host \<Rightarrow> pluginState \<Rightarrow> element list
    \<Rightarrow> 'e option \<times> 'f node list \<times> pluginState" where
  "postProcess settings h st [] = (None, [], st)"
| "postProcess settings h st (transclusion # rest) =
     (case processTransclusion settings h st transclusion of
        (Some e, n, st') \<Rightarrow> (Some e, n # map Embed rest, st')
      | (None, n, st') \<Rightarrow>
          (case postProcess settings h st' rest of (r, ns, st'') \<Rightarrow> (r, n # ns, st'')))"

section \<open>The heading shifter, line by line\<close>

text \<open>
  The vocabulary of the line-by-line description of the shifter, to be compared with
  \<open>replaceFrom\<close>. A text is its lines, each followed by the line terminator that ends it,
  and a last line with none.
\<close>

text \<open>A line: no line terminator in it.\<close>

definition isLine :: "jsstring \<Rightarrow> bool" where
  "isLine l = list_all (\<lambda>c. \<not> isLineTerminator c) l"

text \<open>A line made of 1 to 6 markers and, after them, white space only (or nothing).\<close>

definition emptyHeading :: "jsstring \<Rightarrow> bool" where
  "emptyHeading l =
     (let n = length (takeWhile (\<lambda>c. c = hash) l) in
      1 \<le> n \<and> n \<le> 6 \<and> list_all isWhiteSpace (drop n l))"

text \<open>
  What the description says of one line, for the base level \<open>L\<close>: a line on which the
  heading pattern matches becomes \<open>min (h + L) 6\<close> markers, one space and its content;
  any other line stays as it is.
\<close>

definition shiftLine :: "nat \<Rightarrow> jsstring \<Rightarrow> jsstring" where
  "shiftLine L l =
     (case matchHeading l of
        None \<Rightarrow> l
      | Some (h, ws, content) \<Rightarrow> replicate (min (h + L) 6) hash @ space # content)"

text \<open>The text made of the lines \<open>ls\<close>, each with its line terminator, and the last line.\<close>

definition joinLines :: "(jsstring \<times> 16 word) list \<Rightarrow> jsstring \<Rightarrow> jsstring" where
  "joinLines ls final = concat (map (\<lambda>(l, t). l @ [t]) ls) @ final"

section \<open>Elements and hosts of the concrete instances\<close>

text \<open>An element with the given tag, no attribute and no parent.\<close>

definition rootElement :: "string \<Rightarrow> element" where
  "rootElement tag = Element (ascii tag) None [] None"

text \<open>
  A \<open>span.internal-embed\<close> written \<open>![[path]]\<close> (implicit) or \<open>!![[path]]\<close> (explicit), below
  the given parent.
\<close>

definition implicitEmbed :: "string \<Rightarrow> element option \<Rightarrow> element" where
  "implicitEmbed path par =
     Element (ascii ''SPAN'') (Some (ascii path)) (ascii ''<span alt='' @ ascii path @ ascii ''></span>'') par"

definition explicitEmbed :: "string \<Rightarrow> element option \<Rightarrow> element" where
  "explicitEmbed path par =
     Element (ascii ''SPAN'') (Some (ascii path))
       (ascii ''<span alt=!![['' @ ascii path @ ascii '']]></span>'') par"

text \<open>
  A vault with the file \<open>b.md\<close> and the folder \<open>notes\<close>; the renderer returns the text it
  is given and leaves the set as it is.
\<close>

definition demoHost :: "(string, jsstring) host" where
  "demoHost =
     \<lparr>getAbstractFileByPath =
        (\<lambda>p. if p = ascii ''b.md'' then Some TFile
             else if p = ascii ''notes'' then Some TFolder else None),
      vaultRead = (\<lambda>p. Inr (ascii ''# B'')),
      render = (\<lambda>content p files. (Inr content, files))\<rparr>"

text \<open>The same vault when reading rejects, and when rendering rejects.\<close>

definition readFailsHost :: "(string, jsstring) host" where
  "readFailsHost = demoHost\<lparr>vaultRead := (\<lambda>p. Inl ''EIO'')\<rparr>"

definition renderFailsHost :: "(string, jsstring) host" where
  "renderFailsHost = demoHost\<lparr>render := (\<lambda>content p files. (Inl ''render failed'', files))\<rparr>"

definition emptyState :: pluginState where
  "emptyState = \<lparr>embeddedFiles = {}, trace = []\<rparr>"

section \<open>Facts about the heading regular expression\<close>

lemma hash_not_white: "\<not> isWhiteSpace hash"
  by (simp add: isWhiteSpace_def isLineTerminator_def hash_def)

lemma lineTerminator_white: "isLineTerminator c \<Longrightarrow> isWhiteSpace c"
  by (simp add: isWhiteSpace_def)

lemma space_white: "isWhiteSpace space" and space_not_lt: "\<not> isLineTerminator space"
  and space_not_hash: "space \<noteq> hash"
  by (simp_all add: isWhiteSpace_def isLineTerminator_def space_def hash_def)

lemma takeWhile_dropWhile_stop:
  assumes "suf \<noteq> [] \<longrightarrow> \<not> P (hd suf)"
  shows "takeWhile P (r @ suf) = takeWhile P r" and "dropWhile P (r @ suf) = dropWhile P r @ suf"
proof -
  have base: "takeWhile P suf = []" "dropWhile P suf = suf"
    using assms by (cases suf; simp)+
  show "takeWhile P (r @ suf) = takeWhile P r"
    by (induction r) (simp_all add: base)
  show "dropWhile P (r @ suf) = dropWhile P r @ suf"
    by (induction r) (simp_all add: base)
qed

lemma takeWhile_eq_replicate:
  "takeWhile (\<lambda>c. c = a) s = replicate (length (takeWhile (\<lambda>c. c = a) s)) a"
  by (induction s) simp_all

lemma length_takeWhile_short:
  "x \<in> set xs \<Longrightarrow> \<not> P x \<Longrightarrow> length (takeWhile P xs) < length xs"
  by (induction xs) auto

lemma matchHeading_decomp:
  assumes "matchHeading s = Some (h, ws, rest)"
  shows "s = replicate h hash @ ws @ rest" and "1 \<le> h" and "h \<le> 6" and "ws \<noteq> []"
    and "list_all isWhiteSpace ws" and "rest \<noteq> [] \<longrightarrow> \<not> isWhiteSpace (hd rest)"
proof -
  let ?n = "length (takeWhile (\<lambda>c. c = hash) s)"
  let ?r = "drop ?n s"
  from assms have h: "h = ?n" and b: "1 \<le> ?n" "?n \<le> 6" and r: "?r \<noteq> []" "isWhiteSpace (hd ?r)"
    and ws: "ws = takeWhile isWhiteSpace ?r" and rest: "rest = dropWhile isWhiteSpace ?r"
    by (auto simp: matchHeading_def Let_def split: if_splits)
  have "takeWhile (\<lambda>c. c = hash) s @ dropWhile (\<lambda>c. c = hash) s = s"
    by (rule takeWhile_dropWhile_id)
  then have "s = replicate ?n hash @ ?r"
    using takeWhile_eq_replicate [of hash s] dropWhile_eq_drop [of "\<lambda>c. c = hash" s] by simp
  then show "s = replicate h hash @ ws @ rest"
    using h ws rest by simp
  show "1 \<le> h" "h \<le> 6" using h b by simp_all
  show "ws \<noteq> []" using r ws by (cases ?r) auto
  show "list_all isWhiteSpace ws" unfolding ws list_all_iff by (auto dest: set_takeWhileD)
  show "rest \<noteq> [] \<longrightarrow> \<not> isWhiteSpace (hd rest)"
    unfolding rest by (simp add: hd_dropWhile)
qed

lemma matchHeading_heading:
  assumes "1 \<le> h" "h \<le> 6" "isWhiteSpace w"
  shows "matchHeading (replicate h hash @ w # rest)
    = Some (h, w # takeWhile isWhiteSpace rest, dropWhile isWhiteSpace rest)"
proof -
  have "w \<noteq> hash" using assms(3) hash_not_white by auto
  then have "takeWhile (\<lambda>c. c = hash) (replicate h hash @ w # rest) = replicate h hash"
    by (induction h) simp_all
  then show ?thesis
    using assms by (simp add: matchHeading_def Let_def)
qed

lemma replaceFrom_heading:
  assumes "1 \<le> h" "h \<le> 6" "isWhiteSpace w"
  shows "replaceFrom L True (replicate h hash @ w # rest)
    = replicate (min (h + L) 6) hash @ space #
      replaceFrom L (isLineTerminator (last (w # takeWhile isWhiteSpace rest)))
        (dropWhile isWhiteSpace rest)"
proof -
  obtain c cs where s: "replicate h hash @ w # rest = c # cs"
    by (cases "replicate h hash @ w # rest") auto
  have "matchHeading (c # cs) = Some (h, w # takeWhile isWhiteSpace rest, dropWhile isWhiteSpace rest)"
    using matchHeading_heading [OF assms, of rest] unfolding s .
  then show ?thesis
    unfolding s by simp
qed

lemma matchHeading_append:
  assumes "pre \<noteq> []" "isLineTerminator (last pre)" "suf \<noteq> [] \<longrightarrow> \<not> isWhiteSpace (hd suf)"
  shows "matchHeading (pre @ suf)
    = map_option (\<lambda>(h, ws, rest). (h, ws, rest @ suf)) (matchHeading pre)"
proof -
  let ?n = "length (takeWhile (\<lambda>c. c = hash) pre)"
  have nh: "last pre \<noteq> hash"
    using assms(2) lineTerminator_white hash_not_white by auto
  have "last pre \<in> set pre" using assms(1) by simp
  then have tw: "takeWhile (\<lambda>c. c = hash) (pre @ suf) = takeWhile (\<lambda>c. c = hash) pre"
    using nh by (simp add: takeWhile_append1)
  have "?n < length pre"
    using \<open>last pre \<in> set pre\<close> nh by (rule length_takeWhile_short)
  then have d: "drop ?n (pre @ suf) = drop ?n pre @ suf" and ne: "drop ?n pre \<noteq> []"
    by simp_all
  show ?thesis
    using ne by (simp add: matchHeading_def Let_def tw d takeWhile_dropWhile_stop [where P = isWhiteSpace, OF assms(3)])
qed

lemma replaceFrom_append:
  assumes "pre \<noteq> [] \<longrightarrow> isLineTerminator (last pre)"
    and "suf \<noteq> [] \<longrightarrow> \<not> isWhiteSpace (hd suf)"
  shows "replaceFrom L b (pre @ suf)
    = replaceFrom L b pre @ replaceFrom L (if pre = [] then b else True) suf"
  using assms
proof (induction L b pre rule: replaceFrom.induct)
  case (1 L bol)
  then show ?case by simp
next
  case (2 L bol c cs)
  have lt: "isLineTerminator (last (c # cs))" using "2.prems" by simp
  have mh: "matchHeading ((c # cs) @ suf)
      = map_option (\<lambda>(h, ws, rest). (h, ws, rest @ suf)) (matchHeading (c # cs))"
    using matchHeading_append [of "c # cs" suf] lt "2.prems"(2) by simp
  show ?case
  proof (cases "if bol then matchHeading (c # cs) else None")
    case None
    then have n2: "(if bol then matchHeading (c # cs @ suf) else None) = None"
      using mh by (auto split: if_splits)
    have pc: "cs \<noteq> [] \<longrightarrow> isLineTerminator (last cs)" using lt by auto
    have ih: "replaceFrom L (isLineTerminator c) (cs @ suf)
        = replaceFrom L (isLineTerminator c) cs
          @ replaceFrom L (if cs = [] then isLineTerminator c else True) suf"
      using "2.IH"(1) [OF None pc "2.prems"(2)] .
    have "(if cs = [] then isLineTerminator c else True) = True"
      using lt by auto
    with ih None n2 show ?thesis by simp
  next
    case (Some x2)
    obtain h ws rest where x2: "x2 = (h, ws, rest)" by (cases x2) auto
    from Some x2 have bol: "bol" and m: "matchHeading (c # cs) = Some (h, ws, rest)"
      by (auto split: if_splits)
    have m2: "matchHeading (c # cs @ suf) = Some (h, ws, rest @ suf)"
      using mh m by simp
    note dec = matchHeading_decomp [OF m]
    have lt': "isLineTerminator (last (replicate h hash @ ws @ rest))"
      using lt unfolding dec(1) .
    have pr: "rest \<noteq> [] \<longrightarrow> isLineTerminator (last rest)"
      using lt' by (auto simp: last_append split: if_splits)
    have ih: "replaceFrom L (isLineTerminator (last ws)) (rest @ suf)
        = replaceFrom L (isLineTerminator (last ws)) rest
          @ replaceFrom L (if rest = [] then isLineTerminator (last ws) else True) suf"
      using "2.IH"(2) [OF Some _ _ pr "2.prems"(2), of h "(ws, rest)"] x2 by simp
    have "rest = [] \<longrightarrow> isLineTerminator (last ws)"
      using lt' dec(4) by (auto simp: last_append split: if_splits)
    then have "(if rest = [] then isLineTerminator (last ws) else True) = True"
      by auto
    with ih bol m m2 show ?thesis by simp
  qed
qed

lemma replaceFrom_copy:
  "isLine l \<Longrightarrow> replaceFrom L False (l @ rest) = l @ replaceFrom L False rest"
  by (induction l) (simp_all add: isLine_def)

lemma takeWhile_stop_at:
  "\<not> P t \<Longrightarrow> takeWhile P (l @ t # rest) = takeWhile P l"
  by (induction l) simp_all

lemma matchHeading_line:
  assumes "\<not> emptyHeading l" "isLineTerminator t"
  shows "matchHeading (l @ t # rest)
    = map_option (\<lambda>(h, ws, content). (h, ws, content @ t # rest)) (matchHeading l)"
proof -
  let ?n = "length (takeWhile (\<lambda>c. c = hash) l)"
  have "t \<noteq> hash"
    using assms(2) lineTerminator_white hash_not_white by auto
  then have tw: "takeWhile (\<lambda>c. c = hash) (l @ t # rest) = takeWhile (\<lambda>c. c = hash) l"
    by (simp add: takeWhile_stop_at)
  have d: "drop ?n (l @ t # rest) = drop ?n l @ t # rest"
    by (simp add: length_takeWhile_le)
  show ?thesis
  proof (cases "1 \<le> ?n \<and> ?n \<le> 6")
    case False
    then show ?thesis
      by (auto simp: matchHeading_def Let_def tw)
  next
    case True
    with assms(1) have "\<not> list_all isWhiteSpace (drop ?n l)"
      by (simp add: emptyHeading_def Let_def)
    then obtain x where x: "x \<in> set (drop ?n l)" "\<not> isWhiteSpace x"
      by (auto simp: list_all_iff)
    then have ne: "drop ?n l \<noteq> []" by auto
    have "takeWhile isWhiteSpace (drop ?n l @ t # rest) = takeWhile isWhiteSpace (drop ?n l)"
      and "dropWhile isWhiteSpace (drop ?n l @ t # rest)
        = dropWhile isWhiteSpace (drop ?n l) @ t # rest"
      using x by simp_all
    then show ?thesis
      using ne by (simp add: matchHeading_def Let_def tw d)
  qed
qed

lemma matchHeading_parts_of_line:
  assumes "matchHeading l = Some (h, ws, content)" "isLine l"
  shows "\<not> isLineTerminator (last ws)" and "isLine content"
proof -
  note dec = matchHeading_decomp [OF assms(1)]
  have "last ws \<in> set l"
    using dec(4) by (subst dec(1)) simp
  then show "\<not> isLineTerminator (last ws)"
    using assms(2) by (auto simp: isLine_def list_all_iff)
  have "set content \<subseteq> set l"
    by (subst dec(1)) auto
  then show "isLine content"
    using assms(2) by (auto simp: isLine_def list_all_iff)
qed

lemma replaceFrom_line:
  assumes "isLine l" "\<not> emptyHeading l" "isLineTerminator t"
  shows "replaceFrom L True (l @ t # rest) = shiftLine L l @ t # replaceFrom L True rest"
proof (cases l)
  case Nil
  have "t \<noteq> hash"
    using assms(3) lineTerminator_white hash_not_white by auto
  then have "matchHeading (t # rest) = None"
    by (simp add: matchHeading_def)
  then show ?thesis
    using Nil assms(3) by (simp add: shiftLine_def matchHeading_def)
next
  case (Cons c cs)
  have c: "\<not> isLineTerminator c" and cs: "isLine cs"
    using assms(1) Cons by (simp_all add: isLine_def)
  have mh: "matchHeading (c # cs @ t # rest)
      = map_option (\<lambda>(h, ws, content). (h, ws, content @ t # rest)) (matchHeading (c # cs))"
    using matchHeading_line [OF assms(2,3), of rest] Cons by simp
  show ?thesis
  proof (cases "matchHeading (c # cs)")
    case None
    then show ?thesis
      using mh c Cons replaceFrom_copy [OF cs, of L "t # rest"] assms(3)
      by (simp add: shiftLine_def)
  next
    case (Some x)
    obtain h ws content where x: "x = (h, ws, content)" by (cases x) auto
    have m: "matchHeading l = Some (h, ws, content)"
      using Some x Cons by simp
    note parts = matchHeading_parts_of_line [OF m assms(1)]
    show ?thesis
      using mh Some x Cons parts(1) replaceFrom_copy [OF parts(2), of L "t # rest"] assms(3)
      by (simp add: shiftLine_def)
  qed
qed

lemma replaceFrom_last_line:
  assumes "isLine l"
  shows "replaceFrom L True l = shiftLine L l"
proof (cases l)
  case Nil
  then show ?thesis by (simp add: shiftLine_def matchHeading_def)
next
  case (Cons c cs)
  have c: "\<not> isLineTerminator c" and cs: "isLine cs"
    using assms(1) Cons by (simp_all add: isLine_def)
  show ?thesis
  proof (cases "matchHeading (c # cs)")
    case None
    then show ?thesis
      using c Cons replaceFrom_copy [OF cs, of L "[]"] by (simp add: shiftLine_def)
  next
    case (Some x)
    obtain h ws content where x: "x = (h, ws, content)" by (cases x) auto
    have m: "matchHeading l = Some (h, ws, content)"
      using Some x Cons by simp
    note parts = matchHeading_parts_of_line [OF m assms(1)]
    show ?thesis
      using Some x Cons parts(1) replaceFrom_copy [OF parts(2), of L "[]"]
      by (simp add: shiftLine_def)
  qed
qed

lemma replaceFrom_joinLines:
  assumes "\<forall>(l, t) \<in> set ls. isLine l \<and> \<not> emptyHeading l \<and> isLineTerminator t" "isLine final"
  shows "replaceFrom L True (joinLines ls final)
    = joinLines (map (\<lambda>(l, t). (shiftLine L l, t)) ls) (shiftLine L final)"
  using assms(1)
proof (induction ls)
  case Nil
  then show ?case
    using replaceFrom_last_line [OF assms(2)] by (simp add: joinLines_def)
next
  case (Cons a ls)
  obtain l t where a: "a = (l, t)" by (cases a) auto
  have l: "isLine l" "\<not> emptyHeading l" "isLineTerminator t"
    using Cons.prems a by simp_all
  have "replaceFrom L True (joinLines ls final)
      = joinLines (map (\<lambda>(l, t). (shiftLine L l, t)) ls) (shiftLine L final)"
    using Cons by simp
  then show ?case
    using replaceFrom_line [OF l, of L "joinLines ls final"] a by (simp add: joinLines_def)
qed

section \<open>Facts about the heading shifter and the locator\<close>

lemmas regex_defs = ascii_def hash_def space_def isWhiteSpace_def isLineTerminator_def
  matchHeading_def isHeadingTag_def tagLevel_def

lemma replicate_numeral:
  "replicate (numeral k) x = x # replicate (pred_numeral k) x"
  by (simp add: numeral_eq_Suc)

lemma getParentHeaderLevel_range:
  "getParentHeaderLevel t = Some L \<Longrightarrow> 1 \<le> L \<and> L \<le> 6"
proof (induction t arbitrary: L rule: getParentHeaderLevel.induct)
  case (1 tag s html par)
  show ?case
  proof (cases "tag \<noteq> [] \<and> isHeadingTag tag")
    case True
    then obtain a b where tag: "tag = [a, b]" and b: "0x31 \<le> b" "b \<le> 0x36"
      by (auto simp: isHeadingTag_def split: list.splits)
    from b have "49 \<le> unat b" "unat b \<le> 54"
      by (simp_all add: word_le_nat_alt)
    moreover have "L = unat b - 48"
      using "1.prems" True tag by (simp add: tagLevel_def)
    ultimately show ?thesis by arith
  next
    case False
    then show ?thesis
      using 1 by (auto split: option.splits)
  qed
qed

lemma shiftHeadings_at_heading:
  assumes "getParentHeaderLevel t = Some L" "pre \<noteq> [] \<longrightarrow> isLineTerminator (last pre)"
    "1 \<le> h" "h \<le> 6" "isWhiteSpace w"
  shows "shiftHeadings (pre @ replicate h hash @ w # rest) t
    = shiftHeadings pre t @ replicate (min (h + L) 6) hash @ space #
      replaceFrom L (isLineTerminator (last (w # takeWhile isWhiteSpace rest)))
        (dropWhile isWhiteSpace rest)"
proof -
  have nw: "replicate h hash @ w # rest \<noteq> [] \<longrightarrow> \<not> isWhiteSpace (hd (replicate h hash @ w # rest))"
    using assms(3) hash_not_white by (cases h) simp_all
  have "replaceFrom L True (pre @ replicate h hash @ w # rest)
      = replaceFrom L True pre @ replaceFrom L True (replicate h hash @ w # rest)"
    using replaceFrom_append [OF assms(2) nw, of L True] by simp
  then show ?thesis
    using assms(1) replaceFrom_heading [OF assms(3,4,5), of L rest]
    by (simp add: shiftHeadings_def)
qed




lemmas fixture_defs = implicitEmbed_def explicitEmbed_def rootElement_def demoHost_def
  readFailsHost_def renderFailsHost_def emptyState_def isExplicit_def

section \<open>The heading shifter\<close>

text \<open>
  Claim C3. The heading shifter is a function of the text and of the base level the
  locator returns: two transclusions with the same base level give the same text. With
  no base level the text is returned unchanged. Otherwise, wherever a line starts with
  \<open>h\<close> markers, \<open>h\<close> from 1 to 6, followed by a white space character, the \<open>h\<close> markers are
  replaced by \<open>min (h + L) 6\<close> markers; the text before the line is shifted on its own.
  So \<open>###### x\<close> shifted by 3 is \<open>###### x\<close>, \<open># x\<close> shifted by 2 is \<open>### x\<close>, and \<open>## x\<close>
  with no base level is \<open>## x\<close>.
\<close>

theorem C3_shiftHeadings:
  "(getParentHeaderLevel t = None \<longrightarrow> shiftHeadings content t = content)
   \<and> (getParentHeaderLevel t = getParentHeaderLevel t' \<longrightarrow>
        shiftHeadings content t = shiftHeadings content t')
   \<and> (\<forall>L pre h w rest.
        getParentHeaderLevel t = Some L \<and> (pre \<noteq> [] \<longrightarrow> isLineTerminator (last pre))
        \<and> 1 \<le> h \<and> h \<le> 6 \<and> isWhiteSpace w \<longrightarrow>
        shiftHeadings (pre @ replicate h hash @ w # rest) t
        = shiftHeadings pre t @ replicate (min (h + L) 6) hash @ space #
          replaceFrom L (isLineTerminator (last (w # takeWhile isWhiteSpace rest)))
            (dropWhile isWhiteSpace rest))
   \<and> (getParentHeaderLevel t = Some 3 \<longrightarrow>
        shiftHeadings (ascii ''###### x'') t = ascii ''###### x'')
   \<and> (getParentHeaderLevel t = Some 2 \<longrightarrow> shiftHeadings (ascii ''# x'') t = ascii ''### x'')
   \<and> (getParentHeaderLevel t = None \<longrightarrow> shiftHeadings (ascii ''## x'') t = ascii ''## x'')"
proof (intro conjI allI impI)
  show "shiftHeadings content t = content" if "getParentHeaderLevel t = None"
    using that by (simp add: shiftHeadings_def)
  show "shiftHeadings content t = shiftHeadings content t'"
    if "getParentHeaderLevel t = getParentHeaderLevel t'"
    using that by (simp add: shiftHeadings_def)
  show "shiftHeadings (pre @ replicate h hash @ w # rest) t
        = shiftHeadings pre t @ replicate (min (h + L) 6) hash @ space #
          replaceFrom L (isLineTerminator (last (w # takeWhile isWhiteSpace rest)))
            (dropWhile isWhiteSpace rest)"
    if "getParentHeaderLevel t = Some L \<and> (pre \<noteq> [] \<longrightarrow> isLineTerminator (last pre))
        \<and> 1 \<le> h \<and> h \<le> 6 \<and> isWhiteSpace w" for L pre h w rest
    using that shiftHeadings_at_heading by blast
  show "shiftHeadings (ascii ''###### x'') t = ascii ''###### x''"
    if "getParentHeaderLevel t = Some 3"
    using that by (simp add: shiftHeadings_def regex_defs replicate_numeral)
  show "shiftHeadings (ascii ''# x'') t = ascii ''### x''" if "getParentHeaderLevel t = Some 2"
    using that by (simp add: shiftHeadings_def regex_defs replicate_numeral)
  show "shiftHeadings (ascii ''## x'') t = ascii ''## x''" if "getParentHeaderLevel t = None"
    using that by (simp add: shiftHeadings_def)
qed


text \<open>
  An instance of C3: under an \<open>H2\<close>, \<open># x\<close> and the second line of \<open>a\<close>, \<open>#### b\<close>; under no
  heading, \<open>## x\<close>.
\<close>

theorem C3_shiftHeadings_witness:
  "getParentHeaderLevel (implicitEmbed ''b.md'' (Some (rootElement ''H2''))) = Some 2
   \<and> isLineTerminator (last (ascii ''a'' @ [0x0A])) \<and> isWhiteSpace space
   \<and> shiftHeadings (ascii ''# x'') (implicitEmbed ''b.md'' (Some (rootElement ''H2''))) = ascii ''### x''
   \<and> shiftHeadings (ascii ''a'' @ [0x0A] @ ascii ''#### b'') (implicitEmbed ''b.md'' (Some (rootElement ''H2'')))
       = ascii ''a'' @ [0x0A] @ ascii ''###### b''
   \<and> getParentHeaderLevel (rootElement ''P'') = None
   \<and> shiftHeadings (ascii ''## x'') (rootElement ''P'') = ascii ''## x''"
proof -
  let ?t = "implicitEmbed ''b.md'' (Some (rootElement ''H2''))"
  let ?pre = "ascii ''a'' @ [0x0A]"
  have lvl: "getParentHeaderLevel ?t = Some 2"
    by (simp add: implicitEmbed_def rootElement_def regex_defs)
  have none: "getParentHeaderLevel (rootElement ''P'') = None"
    by (simp add: rootElement_def regex_defs)
  have pre: "isLineTerminator (last ?pre)"
    by (simp add: regex_defs)
  have ws: "isWhiteSpace space"
    by (rule space_white)
  note ex2 = C3_shiftHeadings [where t = ?t,
      THEN conjunct2, THEN conjunct2, THEN conjunct2, THEN conjunct2, THEN conjunct1, rule_format]
  have a: "shiftHeadings (ascii ''# x'') ?t = ascii ''### x''"
    by (rule ex2 [OF lvl])
  note gen = C3_shiftHeadings [where t = ?t,
      THEN conjunct2, THEN conjunct2, THEN conjunct1, rule_format]
  have "shiftHeadings (?pre @ replicate 4 hash @ space # ascii ''b'') ?t
      = shiftHeadings ?pre ?t @ replicate (min (4 + 2) 6) hash @ space #
        replaceFrom 2 (isLineTerminator (last (space # takeWhile isWhiteSpace (ascii ''b''))))
          (dropWhile isWhiteSpace (ascii ''b''))"
    by (rule gen) (simp add: lvl ws regex_defs)
  moreover have "?pre @ replicate 4 hash @ space # ascii ''b'' = ascii ''a'' @ [0x0A] @ ascii ''#### b''"
    by (simp add: regex_defs replicate_numeral)
  moreover have "shiftHeadings ?pre ?t @ replicate (min (4 + 2) 6) hash @ space #
        replaceFrom 2 (isLineTerminator (last (space # takeWhile isWhiteSpace (ascii ''b''))))
          (dropWhile isWhiteSpace (ascii ''b''))
      = ascii ''a'' @ [0x0A] @ ascii ''###### b''"
    by (simp add: lvl shiftHeadings_def regex_defs replicate_numeral)
  ultimately have b: "shiftHeadings (ascii ''a'' @ [0x0A] @ ascii ''#### b'') ?t
      = ascii ''a'' @ [0x0A] @ ascii ''###### b''"
    by simp
  note nn = C3_shiftHeadings [where t = "rootElement ''P''", THEN conjunct1, rule_format]
  have c: "shiftHeadings (ascii ''## x'') (rootElement ''P'') = ascii ''## x''"
    by (rule nn [OF none])
  from lvl pre ws a b none c show ?thesis
    by (intro conjI)
qed

text \<open>
  Claim C6, as the code has it. The claim says the white space after the markers is
  preserved; the replacement text is the new markers and one space, so a heading written
  with two spaces comes out with one.
\<close>

theorem C6_whitespace_counterexample:
  "shiftHeadings (ascii ''#  x'') (implicitEmbed ''b.md'' (Some (rootElement ''H1''))) = ascii ''## x''
   \<and> ascii ''## x'' \<noteq> ascii ''##  x''"
  by (simp add: shiftHeadings_def implicitEmbed_def rootElement_def regex_defs replicate_numeral)

text \<open>
  Claim C6, amended. In a text where no line that ends with a line terminator is made of
  1 to 6 markers and white space only, the shifter with a base level \<open>L\<close> works line by
  line and keeps every line terminator. A line on which the heading pattern matches, that
  is \<open>h\<close> markers, the white space \<open>ws\<close> after them and the content, becomes
  \<open>min (h + L) 6\<close> markers, one space and the same content; every other line is
  reproduced unchanged.
\<close>

theorem C6_line_by_line:
  assumes "getParentHeaderLevel t = Some L"
    and "\<forall>(l, e) \<in> set ls. isLine l \<and> \<not> emptyHeading l \<and> isLineTerminator e"
    and "isLine final"
  shows "shiftHeadings (joinLines ls final) t
      = joinLines (map (\<lambda>(l, e). (shiftLine L l, e)) ls) (shiftLine L final)
    \<and> (\<forall>l. matchHeading l = None \<longrightarrow> shiftLine L l = l)
    \<and> (\<forall>l h ws content. matchHeading l = Some (h, ws, content) \<longrightarrow>
          l = replicate h hash @ ws @ content
          \<and> shiftLine L l = replicate (min (h + L) 6) hash @ space # content)"
proof (intro conjI allI impI)
  show "shiftHeadings (joinLines ls final) t
      = joinLines (map (\<lambda>(l, e). (shiftLine L l, e)) ls) (shiftLine L final)"
    using assms(1) replaceFrom_joinLines [OF assms(2,3), of L] by (simp add: shiftHeadings_def)
  show "shiftLine L l = l" if "matchHeading l = None" for l
    using that by (simp add: shiftLine_def)
  show "l = replicate h hash @ ws @ content"
    if "matchHeading l = Some (h, ws, content)" for l h ws content
    using matchHeading_decomp(1) [OF that] .
  show "shiftLine L l = replicate (min (h + L) 6) hash @ space # content"
    if "matchHeading l = Some (h, ws, content)" for l h ws content
    using that by (simp add: shiftLine_def)
qed

text \<open>
  An instance of C6: three lines under an \<open>H2\<close>; the heading in the middle has two
  spaces after its marker.
\<close>

theorem C6_line_by_line_witness:
  "getParentHeaderLevel (implicitEmbed ''b.md'' (Some (rootElement ''H2''))) = Some 2
   \<and> isLine (ascii ''intro'') \<and> \<not> emptyHeading (ascii ''intro'')
   \<and> isLine (ascii ''#  Title'') \<and> \<not> emptyHeading (ascii ''#  Title'')
   \<and> isLineTerminator 0x0A \<and> isLine (ascii ''body'')
   \<and> shiftHeadings (ascii ''intro'' @ [0x0A] @ ascii ''#  Title'' @ [0x0A] @ ascii ''body'')
         (implicitEmbed ''b.md'' (Some (rootElement ''H2'')))
       = ascii ''intro'' @ [0x0A] @ ascii ''### Title'' @ [0x0A] @ ascii ''body''"
proof -
  let ?t = "implicitEmbed ''b.md'' (Some (rootElement ''H2''))"
  let ?ls = "[(ascii ''intro'', 0x0A), (ascii ''#  Title'', 0x0A)]"
  have lvl: "getParentHeaderLevel ?t = Some 2"
    by (simp add: implicitEmbed_def rootElement_def regex_defs)
  have l1: "isLine (ascii ''intro'')" "\<not> emptyHeading (ascii ''intro'')"
    by (simp_all add: isLine_def emptyHeading_def regex_defs)
  have l2: "isLine (ascii ''#  Title'')" "\<not> emptyHeading (ascii ''#  Title'')"
    by (simp_all add: isLine_def emptyHeading_def regex_defs)
  have lt: "isLineTerminator 0x0A"
    by (simp add: regex_defs)
  have fin: "isLine (ascii ''body'')"
    by (simp add: isLine_def regex_defs)
  have lines: "\<forall>(l, e) \<in> set ?ls. isLine l \<and> \<not> emptyHeading l \<and> isLineTerminator e"
    using l1 l2 lt by simp
  have "shiftHeadings (joinLines ?ls (ascii ''body'')) ?t
      = joinLines (map (\<lambda>(l, e). (shiftLine 2 l, e)) ?ls) (shiftLine 2 (ascii ''body''))"
    by (rule C6_line_by_line [OF lvl lines fin, THEN conjunct1])
  moreover have "joinLines ?ls (ascii ''body'')
      = ascii ''intro'' @ [0x0A] @ ascii ''#  Title'' @ [0x0A] @ ascii ''body''"
    by (simp add: joinLines_def)
  moreover have "joinLines (map (\<lambda>(l, e). (shiftLine 2 l, e)) ?ls) (shiftLine 2 (ascii ''body''))
      = ascii ''intro'' @ [0x0A] @ ascii ''### Title'' @ [0x0A] @ ascii ''body''"
    by (simp add: joinLines_def shiftLine_def regex_defs replicate_numeral)
  ultimately have "shiftHeadings (ascii ''intro'' @ [0x0A] @ ascii ''#  Title'' @ [0x0A] @ ascii ''body'') ?t
      = ascii ''intro'' @ [0x0A] @ ascii ''### Title'' @ [0x0A] @ ascii ''body''"
    by simp
  with lvl l1 l2 lt fin show ?thesis
    by (intro conjI)
qed

text \<open>
  Why the lines of C6 exclude a heading with no content: on such a line \<open>\s+\<close> goes on
  through the line terminator, and the next line is joined to the heading.
\<close>

lemma empty_heading_joins_next_line:
  "shiftHeadings (ascii ''#'' @ [0x0A] @ ascii ''# x'') (implicitEmbed ''b.md'' (Some (rootElement ''H1'')))
     = ascii ''## ## x''"
  by (simp add: shiftHeadings_def implicitEmbed_def rootElement_def regex_defs replicate_numeral)

text \<open>
  Claim C10. The shift never lowers a heading: a base level \<open>L\<close> the locator returns is
  from 1 to 6, and a line of level \<open>h\<close>, from 1 to 6, comes out with \<open>min (h + L) 6\<close>
  markers, which is at least \<open>h\<close>. The markers the output starts with are counted for a
  heading on the first line; for a heading on a later line the output is given.
\<close>

theorem C10_shift_never_decreases:
  assumes "getParentHeaderLevel t = Some L" and "1 \<le> h" and "h \<le> 6" and "isWhiteSpace w"
    and "pre \<noteq> [] \<longrightarrow> isLineTerminator (last pre)"
  shows "1 \<le> L \<and> L \<le> 6 \<and> h \<le> min (h + L) 6
    \<and> length (takeWhile (\<lambda>c. c = hash) (shiftHeadings (replicate h hash @ w # rest) t))
        = min (h + L) 6
    \<and> shiftHeadings (pre @ replicate h hash @ w # rest) t
        = shiftHeadings pre t @ replicate (min (h + L) 6) hash @ space #
          replaceFrom L (isLineTerminator (last (w # takeWhile isWhiteSpace rest)))
            (dropWhile isWhiteSpace rest)"
proof -
  have range: "1 \<le> L \<and> L \<le> 6"
    using getParentHeaderLevel_range [OF assms(1)] .
  have ge: "h \<le> min (h + L) 6"
    using assms(3) by simp
  have at: "shiftHeadings (pre @ replicate h hash @ w # rest) t
        = shiftHeadings pre t @ replicate (min (h + L) 6) hash @ space #
          replaceFrom L (isLineTerminator (last (w # takeWhile isWhiteSpace rest)))
            (dropWhile isWhiteSpace rest)"
    using shiftHeadings_at_heading [OF assms(1,5,2,3,4)] .
  have "shiftHeadings (replicate h hash @ w # rest) t
        = replicate (min (h + L) 6) hash @ space #
          replaceFrom L (isLineTerminator (last (w # takeWhile isWhiteSpace rest)))
            (dropWhile isWhiteSpace rest)"
    using assms(1) replaceFrom_heading [OF assms(2,3,4), of L rest] by (simp add: shiftHeadings_def)
  then have "takeWhile (\<lambda>c. c = hash) (shiftHeadings (replicate h hash @ w # rest) t)
        = replicate (min (h + L) 6) hash"
    using space_not_hash by (simp add: takeWhile_stop_at)
  then have lead: "length (takeWhile (\<lambda>c. c = hash) (shiftHeadings (replicate h hash @ w # rest) t))
        = min (h + L) 6"
    by simp
  from range ge lead at show ?thesis by simp
qed

text \<open>An instance of C10: a heading of level 4 under an \<open>H3\<close> comes out at level 6.\<close>

theorem C10_shift_never_decreases_witness:
  "getParentHeaderLevel (implicitEmbed ''b.md'' (Some (rootElement ''H3''))) = Some 3
   \<and> isWhiteSpace space
   \<and> length (takeWhile (\<lambda>c. c = hash)
        (shiftHeadings (replicate 4 hash @ space # ascii ''x'')
           (implicitEmbed ''b.md'' (Some (rootElement ''H3''))))) = 6
   \<and> (4::nat) \<le> 6"
proof -
  let ?t = "implicitEmbed ''b.md'' (Some (rootElement ''H3''))"
  have lvl: "getParentHeaderLevel ?t = Some 3"
    by (simp add: implicitEmbed_def rootElement_def regex_defs)
  have ws: "isWhiteSpace space"
    by (rule space_white)
  have h1: "1 \<le> (4::nat)" and h2: "(4::nat) \<le> 6"
    by simp_all
  have pre: "([]::jsstring) \<noteq> [] \<longrightarrow> isLineTerminator (last [])"
    by simp
  note inst = C10_shift_never_decreases [OF lvl h1 h2 ws pre, of "ascii ''x''"]
  from inst have "length (takeWhile (\<lambda>c. c = hash)
        (shiftHeadings (replicate 4 hash @ space # ascii ''x'') ?t)) = min (4 + 3) 6"
    by (elim conjE)
  then have "length (takeWhile (\<lambda>c. c = hash)
        (shiftHeadings (replicate 4 hash @ space # ascii ''x'') ?t)) = 6"
    by simp
  with lvl ws show ?thesis
    by simp
qed

section \<open>The ancestor heading locator\<close>



section \<open>Loading the settings\<close>

text \<open>
  Claim C8. In the settings \<open>loadSettings\<close> yields, a property the saved data lacks has
  its default, a property the saved data has keeps the saved value, and with no saved
  data the settings are the defaults; both defaults are \<open>false\<close>.
\<close>

theorem C8_loadSettings:
  "(\<forall>k. k \<notin> dom d \<longrightarrow> loadSettings (Some d) k = defaultSettings k)
   \<and> (\<forall>k v. d k = Some v \<longrightarrow> loadSettings (Some d) k = Some v)
   \<and> loadSettings None = defaultSettings
   \<and> defaultSettings ''renderAllTransclusions'' = Some False
   \<and> defaultSettings ''shiftHeadings'' = Some False"
  by (auto simp: loadSettings_def defaultSettings_def map_add_def dom_def split: option.splits)

text \<open>
  An instance of C8: saved data that only sets \<open>shiftHeadings\<close>.
\<close>

theorem C8_loadSettings_witness:
  "''renderAllTransclusions'' \<notin> dom [''shiftHeadings'' \<mapsto> True]
   \<and> loadSettings (Some [''shiftHeadings'' \<mapsto> True]) ''renderAllTransclusions'' = Some False
   \<and> loadSettings (Some [''shiftHeadings'' \<mapsto> True]) ''shiftHeadings'' = Some True"
proof -
  let ?d = "[''shiftHeadings'' \<mapsto> True]"
  have nd: "''renderAllTransclusions'' \<notin> dom ?d"
    by simp
  have sd: "?d ''shiftHeadings'' = Some True"
    by simp
  have "loadSettings (Some ?d) ''renderAllTransclusions'' = defaultSettings ''renderAllTransclusions''"
    by (rule C8_loadSettings [where d = ?d, THEN conjunct1, rule_format, OF nd])
  then have a: "loadSettings (Some ?d) ''renderAllTransclusions'' = Some False"
    by (simp add: defaultSettings_def)
  have b: "loadSettings (Some ?d) ''shiftHeadings'' = Some True"
    by (rule C8_loadSettings [where d = ?d, THEN conjunct2, THEN conjunct1, rule_format, OF sd])
  from nd a b show ?thesis
    by (intro conjI)
qed

section \<open>The pass over the transclusions\<close>



text \<open>
  Claim C7. A transclusion with no \<open>src\<close> (or an empty one), or whose \<open>src\<close> is not the
  path of a file of the vault (nothing there, or a folder), is left as it was: no warning
  stands in its place, nothing is read or rendered, the set of embedded files is
  unchanged, no error is thrown, and the pass goes on with the next transclusion.
\<close>

theorem C7_unresolvable_untouched:
  assumes "srcAttr t = None \<or> srcAttr t = Some []
    \<or> (\<exists>p. srcAttr t = Some p \<and> getAbstractFileByPath h p \<noteq> Some TFile)"
  shows "processTransclusion settings h st t = (None, Embed t, st)
    \<and> postProcess settings h st (t # ts)
      = (case postProcess settings h st ts of (r, ns, st') \<Rightarrow> (r, Embed t # ns, st'))"
proof -
  have step: "processTransclusion settings h st t = (None, Embed t, st)"
    using assms by (auto simp: processTransclusion_def)
  then show ?thesis
    by simp
qed

text \<open>
  Instances of C7: no \<open>src\<close> attribute, a folder, and a path with nothing at it.
\<close>

theorem C7_unresolvable_untouched_witness:
  "srcAttr (Element (ascii ''SPAN'') None (ascii ''!![[b.md]]'') None) = None
   \<and> processTransclusion defaultSettings demoHost emptyState
        (Element (ascii ''SPAN'') None (ascii ''!![[b.md]]'') None)
       = (None, Embed (Element (ascii ''SPAN'') None (ascii ''!![[b.md]]'') None), emptyState)
   \<and> getAbstractFileByPath demoHost (ascii ''notes'') = Some TFolder
   \<and> processTransclusion defaultSettings demoHost emptyState (explicitEmbed ''notes'' None)
       = (None, Embed (explicitEmbed ''notes'' None), emptyState)
   \<and> getAbstractFileByPath demoHost (ascii ''gone.md'') = None
   \<and> processTransclusion defaultSettings demoHost emptyState (explicitEmbed ''gone.md'' None)
       = (None, Embed (explicitEmbed ''gone.md'' None), emptyState)"
proof -
  let ?a = "Element (ascii ''SPAN'') None (ascii ''!![[b.md]]'') None"
  let ?b = "explicitEmbed ''notes'' None"
  let ?c = "explicitEmbed ''gone.md'' None"
  have a: "srcAttr ?a = None"
    by simp
  have b: "getAbstractFileByPath demoHost (ascii ''notes'') = Some TFolder"
    by (simp add: fixture_defs ascii_def)
  have c: "getAbstractFileByPath demoHost (ascii ''gone.md'') = None"
    by (simp add: fixture_defs ascii_def)
  have ha: "srcAttr ?a = None \<or> srcAttr ?a = Some []
      \<or> (\<exists>p. srcAttr ?a = Some p \<and> getAbstractFileByPath demoHost p \<noteq> Some TFile)"
    using a by simp
  have hb: "srcAttr ?b = None \<or> srcAttr ?b = Some []
      \<or> (\<exists>p. srcAttr ?b = Some p \<and> getAbstractFileByPath demoHost p \<noteq> Some TFile)"
    using b by (simp add: explicitEmbed_def)
  have hc: "srcAttr ?c = None \<or> srcAttr ?c = Some []
      \<or> (\<exists>p. srcAttr ?c = Some p \<and> getAbstractFileByPath demoHost p \<noteq> Some TFile)"
    using c by (simp add: explicitEmbed_def)
  have ra: "processTransclusion defaultSettings demoHost emptyState ?a = (None, Embed ?a, emptyState)"
    by (rule C7_unresolvable_untouched [OF ha, THEN conjunct1])
  have rb: "processTransclusion defaultSettings demoHost emptyState ?b = (None, Embed ?b, emptyState)"
    by (rule C7_unresolvable_untouched [OF hb, THEN conjunct1])
  have rc: "processTransclusion defaultSettings demoHost emptyState ?c = (None, Embed ?c, emptyState)"
    by (rule C7_unresolvable_untouched [OF hc, THEN conjunct1])
  from a ra b rb c rc show ?thesis
    by (intro conjI)
qed

text \<open>
  Claim C2. When the target \<open>d\<close> of a transclusion that passes the test is a file
  already in the set of embedded files, the transclusion is replaced by a warning whose
  text ends with \<open>d\<close>; the only call is the console warning, so \<open>d\<close> is neither read nor
  rendered again; \<open>d\<close> stays in the set; no error is thrown and the pass goes on with the
  next transclusion.
\<close>

theorem C2_cycle_rejected:
  assumes "settings ''renderAllTransclusions'' = Some True \<or> isExplicit t"
    and "srcAttr t = Some d" and "d \<noteq> []"
    and "getAbstractFileByPath h d = Some TFile"
    and "d \<in> embeddedFiles st"
  shows "processTransclusion settings h st t
      = (None, TextDiv (warningText d) (ascii ''embed-warning''),
         st\<lparr>trace := trace st @ [ConsoleWarn (consoleText d)]\<rparr>)
    \<and> warningText d = [0x26A0, 0xFE0F] @ ascii '' Infinite loop detected: '' @ d
    \<and> embeddedFiles (snd (snd (processTransclusion settings h st t))) = embeddedFiles st
    \<and> d \<in> embeddedFiles (snd (snd (processTransclusion settings h st t)))
    \<and> postProcess settings h st (t # ts)
      = (case postProcess settings h (st\<lparr>trace := trace st @ [ConsoleWarn (consoleText d)]\<rparr>) ts of
           (r, ns, st') \<Rightarrow> (r, TextDiv (warningText d) (ascii ''embed-warning'') # ns, st'))"
proof -
  have step: "processTransclusion settings h st t
      = (None, TextDiv (warningText d) (ascii ''embed-warning''),
         st\<lparr>trace := trace st @ [ConsoleWarn (consoleText d)]\<rparr>)"
    using assms by (simp add: processTransclusion_def)
  have named: "warningText d = [0x26A0, 0xFE0F] @ ascii '' Infinite loop detected: '' @ d"
    by (simp add: warningText_def)
  have same: "embeddedFiles (snd (snd (processTransclusion settings h st t))) = embeddedFiles st"
    by (simp add: step)
  have pass: "postProcess settings h st (t # ts)
      = (case postProcess settings h (st\<lparr>trace := trace st @ [ConsoleWarn (consoleText d)]\<rparr>) ts of
           (r, ns, st') \<Rightarrow> (r, TextDiv (warningText d) (ascii ''embed-warning'') # ns, st'))"
    by (simp add: step)
  from step named same assms(5) pass show ?thesis
    by simp
qed

text \<open>
  An instance of C2: \<open>b.md\<close> is being rendered and embeds itself.
\<close>

theorem C2_cycle_rejected_witness:
  "isExplicit (explicitEmbed ''b.md'' None)
   \<and> srcAttr (explicitEmbed ''b.md'' None) = Some (ascii ''b.md'')
   \<and> ascii ''b.md'' \<noteq> []
   \<and> getAbstractFileByPath demoHost (ascii ''b.md'') = Some TFile
   \<and> ascii ''b.md'' \<in> embeddedFiles \<lparr>embeddedFiles = {ascii ''b.md''}, trace = []\<rparr>
   \<and> processTransclusion defaultSettings demoHost \<lparr>embeddedFiles = {ascii ''b.md''}, trace = []\<rparr>
         (explicitEmbed ''b.md'' None)
       = (None, TextDiv (warningText (ascii ''b.md'')) (ascii ''embed-warning''),
          \<lparr>embeddedFiles = {ascii ''b.md''}, trace = [ConsoleWarn (consoleText (ascii ''b.md''))]\<rparr>)"
proof -
  let ?t = "explicitEmbed ''b.md'' None"
  let ?st = "\<lparr>embeddedFiles = {ascii ''b.md''}, trace = []\<rparr>"
  have ex: "isExplicit ?t"
    by (simp add: fixture_defs ascii_def)
  then have gate: "defaultSettings ''renderAllTransclusions'' = Some True \<or> isExplicit ?t"
    by simp
  have src: "srcAttr ?t = Some (ascii ''b.md'')"
    by (simp add: fixture_defs)
  have ne: "ascii ''b.md'' \<noteq> []"
    by (simp add: ascii_def)
  have isfile: "getAbstractFileByPath demoHost (ascii ''b.md'') = Some TFile"
    by (simp add: fixture_defs)
  have inflight: "ascii ''b.md'' \<in> embeddedFiles ?st"
    by simp
  have "processTransclusion defaultSettings demoHost ?st ?t
      = (None, TextDiv (warningText (ascii ''b.md'')) (ascii ''embed-warning''),
         ?st\<lparr>trace := trace ?st @ [ConsoleWarn (consoleText (ascii ''b.md''))]\<rparr>)"
    by (rule C2_cycle_rejected [where settings = defaultSettings, OF gate src ne isfile inflight,
        THEN conjunct1])
  then have "processTransclusion defaultSettings demoHost ?st ?t
      = (None, TextDiv (warningText (ascii ''b.md'')) (ascii ''embed-warning''),
         \<lparr>embeddedFiles = {ascii ''b.md''}, trace = [ConsoleWarn (consoleText (ascii ''b.md''))]\<rparr>)"
    by simp
  with ex src ne isfile inflight show ?thesis
    by (intro conjI)
qed

text \<open>
  Claim C9. When the transclusion of \<open>p\<close> is resolved, \<open>p\<close> is out of the set before the
  pass looks at the next transclusion, whatever the nested passes left in the set. A
  second transclusion of \<open>p\<close> right after it is therefore read and rendered again, not
  replaced by a warning.
\<close>

theorem C9_sibling_resolved_again:
  assumes "settings ''renderAllTransclusions'' = Some True \<or> isExplicit t1"
    and "settings ''renderAllTransclusions'' = Some True \<or> isExplicit t2"
    and "srcAttr t1 = Some p" and "srcAttr t2 = Some p" and "p \<noteq> []"
    and "getAbstractFileByPath h p = Some TFile"
    and "p \<notin> embeddedFiles st"
    and "vaultRead h p = Inr content"
    and "text1 = (if settings ''shiftHeadings'' = Some True then shiftHeadings content t1 else content)"
    and "text2 = (if settings ''shiftHeadings'' = Some True then shiftHeadings content t2 else content)"
    and "render h text1 p (insert p (embeddedFiles st)) = (Inr f1, files1)"
    and "render h text2 p (insert p (files1 - {p})) = (Inr f2, files2)"
  shows "processTransclusion settings h st t1
      = (None, RenderedDiv (ascii ''native-transclusion'') f1,
         \<lparr>embeddedFiles = files1 - {p}, trace = trace st @ [VaultRead p, Render text1 p]\<rparr>)
    \<and> p \<notin> embeddedFiles (snd (snd (processTransclusion settings h st t1)))
    \<and> postProcess settings h st (t1 # ts)
      = (case postProcess settings h
               \<lparr>embeddedFiles = files1 - {p}, trace = trace st @ [VaultRead p, Render text1 p]\<rparr> ts of
           (r, ns, st') \<Rightarrow> (r, RenderedDiv (ascii ''native-transclusion'') f1 # ns, st'))
    \<and> postProcess settings h st [t1, t2]
      = (None,
         [RenderedDiv (ascii ''native-transclusion'') f1, RenderedDiv (ascii ''native-transclusion'') f2],
         \<lparr>embeddedFiles = files2 - {p},
          trace = trace st @ [VaultRead p, Render text1 p, VaultRead p, Render text2 p]\<rparr>)"
proof -
  let ?st1 = "\<lparr>embeddedFiles = files1 - {p}, trace = trace st @ [VaultRead p, Render text1 p]\<rparr>"
  have one: "processTransclusion settings h st t1
      = (None, RenderedDiv (ascii ''native-transclusion'') f1, ?st1)"
    using assms(1,3,5,6,7,8,9,11) by (simp add: processTransclusion_def)
  have fresh: "p \<notin> embeddedFiles ?st1"
    by simp
  have two: "processTransclusion settings h ?st1 t2
      = (None, RenderedDiv (ascii ''native-transclusion'') f2,
         \<lparr>embeddedFiles = files2 - {p},
          trace = trace st @ [VaultRead p, Render text1 p, VaultRead p, Render text2 p]\<rparr>)"
    using assms(2,4,5,6,8,10,12) by (simp add: processTransclusion_def)
  have gone: "p \<notin> embeddedFiles (snd (snd (processTransclusion settings h st t1)))"
    by (simp add: one)
  have pass: "postProcess settings h st (t1 # ts)
      = (case postProcess settings h ?st1 ts of
           (r, ns, st') \<Rightarrow> (r, RenderedDiv (ascii ''native-transclusion'') f1 # ns, st'))"
    by (simp add: one)
  have both: "postProcess settings h st [t1, t2]
      = (None,
         [RenderedDiv (ascii ''native-transclusion'') f1, RenderedDiv (ascii ''native-transclusion'') f2],
         \<lparr>embeddedFiles = files2 - {p},
          trace = trace st @ [VaultRead p, Render text1 p, VaultRead p, Render text2 p]\<rparr>)"
    by (simp add: one two)
  from one gone pass both show ?thesis
    by (intro conjI)
qed

text \<open>
  An instance of C9: two transclusions of \<open>b.md\<close> side by side.
\<close>

theorem C9_sibling_resolved_again_witness:
  "srcAttr (implicitEmbed ''b.md'' None) = Some (ascii ''b.md'') \<and> ascii ''b.md'' \<noteq> []
   \<and> getAbstractFileByPath demoHost (ascii ''b.md'') = Some TFile
   \<and> ascii ''b.md'' \<notin> embeddedFiles emptyState
   \<and> vaultRead demoHost (ascii ''b.md'') = Inr (ascii ''# B'')
   \<and> postProcess [''renderAllTransclusions'' \<mapsto> True] demoHost emptyState
        [implicitEmbed ''b.md'' None, implicitEmbed ''b.md'' None]
       = (None,
          [RenderedDiv (ascii ''native-transclusion'') (ascii ''# B''),
           RenderedDiv (ascii ''native-transclusion'') (ascii ''# B'')],
          \<lparr>embeddedFiles = {},
           trace = [VaultRead (ascii ''b.md''), Render (ascii ''# B'') (ascii ''b.md''),
                    VaultRead (ascii ''b.md''), Render (ascii ''# B'') (ascii ''b.md'')]\<rparr>)"
proof -
  let ?t = "implicitEmbed ''b.md'' None"
  let ?on = "[''renderAllTransclusions'' \<mapsto> True]"
  let ?p = "ascii ''b.md''"
  have gate: "?on ''renderAllTransclusions'' = Some True \<or> isExplicit ?t"
    by simp
  have src: "srcAttr ?t = Some ?p"
    by (simp add: fixture_defs)
  have ne: "?p \<noteq> []"
    by (simp add: ascii_def)
  have isfile: "getAbstractFileByPath demoHost ?p = Some TFile"
    by (simp add: fixture_defs)
  have fresh: "?p \<notin> embeddedFiles emptyState"
    by (simp add: emptyState_def)
  have rd: "vaultRead demoHost ?p = Inr (ascii ''# B'')"
    by (simp add: fixture_defs)
  have tx: "ascii ''# B'' = (if ?on ''shiftHeadings'' = Some True
      then shiftHeadings (ascii ''# B'') ?t else ascii ''# B'')"
    by simp
  have r1: "render demoHost (ascii ''# B'') ?p (insert ?p (embeddedFiles emptyState))
      = (Inr (ascii ''# B''), {?p})"
    by (simp add: fixture_defs)
  have r2: "render demoHost (ascii ''# B'') ?p (insert ?p ({?p} - {?p})) = (Inr (ascii ''# B''), {?p})"
    by (simp add: fixture_defs)
  note inst = C9_sibling_resolved_again [where settings = ?on,
      OF gate gate src src ne isfile fresh rd tx tx r1 r2,
      THEN conjunct2, THEN conjunct2, THEN conjunct2]
  have fin: "\<lparr>embeddedFiles = {?p} - {?p},
        trace = trace emptyState @ [VaultRead ?p, Render (ascii ''# B'') ?p, VaultRead ?p,
          Render (ascii ''# B'') ?p]\<rparr>
      = \<lparr>embeddedFiles = {},
         trace = [VaultRead ?p, Render (ascii ''# B'') ?p, VaultRead ?p, Render (ascii ''# B'') ?p]\<rparr>"
    by (simp add: emptyState_def)
  have "postProcess ?on demoHost emptyState [?t, ?t]
       = (None,
          [RenderedDiv (ascii ''native-transclusion'') (ascii ''# B''),
           RenderedDiv (ascii ''native-transclusion'') (ascii ''# B'')],
          \<lparr>embeddedFiles = {},
           trace = [VaultRead ?p, Render (ascii ''# B'') ?p, VaultRead ?p, Render (ascii ''# B'') ?p]\<rparr>)"
    by (rule inst [unfolded fin])
  with src ne isfile fresh rd show ?thesis
    by (intro conjI)
qed

text \<open>
  Claim C1, as the code has it. The claim says the target leaves the set of embedded
  files on every way out of a resolution. When \<open>vault.read\<close> rejects, and when the
  renderer rejects, the error leaves the loop body before \<open>embeddedFiles.delete\<close>: the
  error is thrown with \<open>b.md\<close> still in the set. A later transclusion of \<open>b.md\<close>, in a
  state where nothing is being embedded any more, is then answered with the loop
  warning.
\<close>

theorem C1_error_leaves_path_in_flight:
  "processTransclusion [''renderAllTransclusions'' \<mapsto> True] readFailsHost emptyState
      (implicitEmbed ''b.md'' None)
     = (Some ''EIO'', Embed (implicitEmbed ''b.md'' None),
        \<lparr>embeddedFiles = {ascii ''b.md''}, trace = [VaultRead (ascii ''b.md'')]\<rparr>)
   \<and> processTransclusion [''renderAllTransclusions'' \<mapsto> True] renderFailsHost emptyState
      (implicitEmbed ''b.md'' None)
     = (Some ''render failed'', Embed (implicitEmbed ''b.md'' None),
        \<lparr>embeddedFiles = {ascii ''b.md''},
         trace = [VaultRead (ascii ''b.md''), Render (ascii ''# B'') (ascii ''b.md'')]\<rparr>)
   \<and> processTransclusion [''renderAllTransclusions'' \<mapsto> True] demoHost
      \<lparr>embeddedFiles = {ascii ''b.md''}, trace = []\<rparr> (implicitEmbed ''b.md'' None)
     = (None, TextDiv (warningText (ascii ''b.md'')) (ascii ''embed-warning''),
        \<lparr>embeddedFiles = {ascii ''b.md''}, trace = [ConsoleWarn (consoleText (ascii ''b.md''))]\<rparr>)"
  by (simp add: processTransclusion_def fixture_defs ascii_def)

end
